theory Spec2Isabelle
  imports Complex_Main "HOL-Library.AList"
begin

section \<open>Python built-ins used by the placement program\<close>

text \<open>
  The exceptions the modelled code can raise. Every public method of
  \<^verbatim>\<open>BookshelfParser\<close> wraps its body in \<^verbatim>\<open>try ... except Exception\<close>,
  prints the exception and returns normally, so an exception ends the method where it
  is raised and leaves the fields written so far.
\<close>

datatype py_exception = ValueError | IndexError | OSError | SolveError

text \<open>
  Text is a list of ASCII characters. \<^verbatim>\<open>str.strip()\<close> and \<^verbatim>\<open>str.split()\<close> use
  Python's ASCII whitespace: space, the controls 0x09 to 0x0D and 0x1C to 0x1F.
\<close>

definition is_space :: "char \<Rightarrow> bool" where
  "is_space c = (c \<in> set [CHR '' '', CHR 0x09, CHR 0x0A, CHR 0x0B, CHR 0x0C, CHR 0x0D,
                           CHR 0x1C, CHR 0x1D, CHR 0x1E, CHR 0x1F])"

definition strip :: "string \<Rightarrow> string" where
  "strip s = rev (dropWhile is_space (rev (dropWhile is_space s)))"

definition startswith :: "string \<Rightarrow> string \<Rightarrow> bool" where
  "startswith s p = (take (length p) s = p)"

text \<open>\<^verbatim>\<open>s.split()\<close>: the maximal runs of non-whitespace characters, in order.\<close>

fun split_acc :: "string \<Rightarrow> string \<Rightarrow> string list" where
  "split_acc cur [] = (if cur = [] then [] else [rev cur])"
| "split_acc cur (c # cs) =
     (if is_space c then (if cur = [] then split_acc [] cs else rev cur # split_acc [] cs)
      else split_acc (c # cur) cs)"

definition split_ws :: "string \<Rightarrow> string list" where
  "split_ws s = split_acc [] s"

text \<open>\<^verbatim>\<open>s.split(d)\<close> for a one-character separator: empty fields are kept.\<close>

fun split_on_acc :: "char \<Rightarrow> string \<Rightarrow> string \<Rightarrow> string list" where
  "split_on_acc d cur [] = [rev cur]"
| "split_on_acc d cur (c # cs) =
     (if c = d then rev cur # split_on_acc d [] cs else split_on_acc d (c # cur) cs)"

definition split_on :: "char \<Rightarrow> string \<Rightarrow> string list" where
  "split_on d s = split_on_acc d [] s"

text \<open>\<^verbatim>\<open>xs[i]\<close> raises \<^verbatim>\<open>IndexError\<close> out of range.\<close>

definition index :: "'a list \<Rightarrow> nat \<Rightarrow> py_exception + 'a" where
  "index xs i = (if i < length xs then Inr (xs ! i) else Inl IndexError)"

text \<open>
  Python dictionaries keep insertion order: assigning to an existing key keeps its
  place, a new key goes to the end. This is \<^const>\<open>AList.update\<close> on an association list;
  \<^const>\<open>map_of\<close> is the lookup.
\<close>

type_synonym 'v pydict = "(string \<times> 'v) list"

definition dict_set :: "'v pydict \<Rightarrow> string \<Rightarrow> 'v \<Rightarrow> 'v pydict" where
  "dict_set d k v = AList.update k v d"

definition dict_keys :: "'v pydict \<Rightarrow> string list" where
  "dict_keys d = map fst d"

definition dict_has :: "'v pydict \<Rightarrow> string \<Rightarrow> bool" where
  "dict_has d k = (k \<in> set (dict_keys d))"

text \<open>
  The conversions \<^verbatim>\<open>int(s)\<close> and \<^verbatim>\<open>float(s)\<close>, the format \<^verbatim>\<open>{v:.6f}\<close>, the clock and
  the solver \<^verbatim>\<open>scipy.sparse.linalg.spsolve\<close> are library code outside the repository.
  They are parameters of the model: \<open>None\<close> or \<open>Inl\<close> is the exception the call raises.
  Floating-point numbers are modelled by the reals they denote.
\<close>

record sparse_matrix =
  shape :: nat
  triplets :: "(nat \<times> nat \<times> real) list"

record builtins =
  py_int :: "string \<Rightarrow> int option"
  py_float :: "string \<Rightarrow> real option"
  format_6f :: "real \<Rightarrow> string"
  strftime_now :: string
  spsolve :: "sparse_matrix \<Rightarrow> real list \<Rightarrow> py_exception + real list"

section \<open>The netlist model of \<^verbatim>\<open>BookshelfParser\<close>\<close>

text \<open>
  A node is a Python dictionary with the keys below; \<^verbatim>\<open>orientation\<close> is absent until
  \<^verbatim>\<open>parse_pl\<close> sets it. The same dictionary object is reachable from \<^verbatim>\<open>self.nodes\<close> and
  from \<^verbatim>\<open>self.fixed_nodes\<close> or \<^verbatim>\<open>self.movable_nodes\<close>, and is mutated in place, so the
  three dictionaries hold addresses into a store of node objects.
\<close>

record node =
  node_name :: string
  node_width :: int
  node_height :: int
  node_x :: real
  node_y :: real
  node_is_fixed :: bool
  node_area :: int
  node_orientation :: "string option"

record pin =
  pin_node :: string
  pin_type :: string

record net =
  net_name :: string
  net_pins :: "pin list"
  net_degree :: nat

type_synonym addr = nat

record parser =
  num_modules :: int
  num_nodes :: int
  num_terminals :: int
  num_nets :: int
  num_pins :: int
  max_net_degree :: nat
  core_lower_left :: "real \<times> real"
  core_upper_right :: "real \<times> real"
  cell_area :: int
  movable_area :: int
  fixed_area :: int
  fixed_area_in_core :: int
  cell_count :: int
  object_count :: int
  fixed_count :: int
  macro_count :: int
  net_count :: int
  pin_2_count :: nat
  pin_3_10_count :: nat
  pin_11_100_count :: nat
  pin_100_plus_count :: nat
  total_pin_count :: int
  nodes :: "addr pydict"
  nets :: "net list"
  fixed_nodes :: "addr pydict"
  movable_nodes :: "addr pydict"
  store :: "addr \<Rightarrow> node"
  next_addr :: addr

section \<open>\<^verbatim>\<open>legalize_placement\<close>: the boundary clipper\<close>

text \<open>
  The body of the loop of \<^verbatim>\<open>legalize_placement\<close> for one node: the x coordinate is
  raised to \<open>min_x\<close> if it is below it, otherwise lowered to \<open>max_x - width\<close> if the
  right edge passes \<open>max_x\<close>; the y coordinate likewise.
\<close>

definition clip_node :: "real \<times> real \<Rightarrow> real \<times> real \<Rightarrow> node \<Rightarrow> node" where
  "clip_node ll ur nd =
     (let min_x = fst ll; min_y = snd ll; max_x = fst ur; max_y = snd ur;
          width = node_width nd; height = node_height nd;
          nd1 = (if node_x nd < min_x then nd\<lparr>node_x := min_x\<rparr>
                 else if node_x nd + real_of_int width > max_x
                      then nd\<lparr>node_x := max_x - real_of_int width\<rparr>
                 else nd);
          nd2 = (if node_y nd1 < min_y then nd1\<lparr>node_y := min_y\<rparr>
                 else if node_y nd1 + real_of_int height > max_y
                      then nd1\<lparr>node_y := max_y - real_of_int height\<rparr>
                 else nd1)
      in nd2)"

fun legalize_loop ::
  "real \<times> real \<Rightarrow> real \<times> real \<Rightarrow> addr pydict \<Rightarrow> (addr \<Rightarrow> node) \<Rightarrow> (addr \<Rightarrow> node)" where
  "legalize_loop ll ur [] h = h"
| "legalize_loop ll ur ((nm, a) # items) h =
     legalize_loop ll ur items (h(a := clip_node ll ur (h a)))"

text \<open>
  No statement of the body can raise (every node has its four keys), so the method
  always returns \<^verbatim>\<open>True\<close>.
\<close>

definition legalize_placement :: "parser \<Rightarrow> parser \<times> bool" where
  "legalize_placement st =
     (st\<lparr>store := legalize_loop (core_lower_left st) (core_upper_right st)
                      (movable_nodes st) (store st)\<rparr>, True)"

text \<open>
  The parser as \<^verbatim>\<open>__init__\<close> leaves it; no node object is allocated yet. A design whose
  only movable cell is wider than the core: core 0..5 by 0..100, cell
  \<open>a\<close> of width 10 and height 1 at (3, 0).
\<close>

definition wide_cell :: node where
  "wide_cell = \<lparr>node_name = ''a'', node_width = 10, node_height = 1, node_x = 3, node_y = 0,
                node_is_fixed = False, node_area = 10, node_orientation = None\<rparr>"

definition empty_parser :: parser where
  "empty_parser =
     \<lparr>num_modules = 0, num_nodes = 0, num_terminals = 0, num_nets = 0, num_pins = 0,
      max_net_degree = 0, core_lower_left = (0, 0), core_upper_right = (0, 0),
      cell_area = 0, movable_area = 0, fixed_area = 0, fixed_area_in_core = 0,
      cell_count = 0, object_count = 0, fixed_count = 0, macro_count = 0,
      net_count = 0, pin_2_count = 0, pin_3_10_count = 0, pin_11_100_count = 0,
      pin_100_plus_count = 0, total_pin_count = 0,
      nodes = [], nets = [], fixed_nodes = [], movable_nodes = [],
      store = (\<lambda>_. \<lparr>node_name = [], node_width = 0, node_height = 0, node_x = 0, node_y = 0,
                      node_is_fixed = False, node_area = 0, node_orientation = None\<rparr>),
      next_addr = 0\<rparr>"

definition wide_design :: parser where
  "wide_design = empty_parser\<lparr>core_upper_right := (5, 100), nodes := [(''a'', 0)],
                               movable_nodes := [(''a'', 0)],
                               store := (store empty_parser)(0 := wide_cell),
                               next_addr := 1\<rparr>"

text \<open>The same cell in a core 0..12 by 0..100, where it fits.\<close>

definition small_design :: parser where
  "small_design = wide_design\<lparr>core_upper_right := (12, 100)\<rparr>"

section \<open>\<^verbatim>\<open>parse_nodes\<close>\<close>

text \<open>The header expression \<^verbatim>\<open>int(line.split(':')[1].strip())\<close>.\<close>

definition header_int :: "builtins \<Rightarrow> string \<Rightarrow> py_exception + int" where
  "header_int env line =
     (case index (split_on CHR '':'' line) 1 of
        Inl e \<Rightarrow> Inl e
      | Inr v \<Rightarrow> (case py_int env (strip v) of None \<Rightarrow> Inl ValueError | Some n \<Rightarrow> Inr n))"

text \<open>
  The first loop of \<^verbatim>\<open>parse_nodes\<close> reads \<^verbatim>\<open>NumNodes\<close> into \<^verbatim>\<open>num_modules\<close> and stops
  at the first \<^verbatim>\<open>NumTerminals\<close> line.
\<close>

fun nodes_header :: "builtins \<Rightarrow> string list \<Rightarrow> parser \<Rightarrow> parser \<times> py_exception option" where
  "nodes_header env [] st = (st, None)"
| "nodes_header env (l # ls) st =
     (let line = strip l in
      if startswith line ''NumNodes'' then
        (case header_int env line of
           Inl e \<Rightarrow> (st, Some e)
         | Inr n \<Rightarrow> nodes_header env ls (st\<lparr>num_modules := n\<rparr>))
      else if startswith line ''NumTerminals'' then
        (case header_int env line of
           Inl e \<Rightarrow> (st, Some e)
         | Inr n \<Rightarrow> (st\<lparr>num_terminals := n\<rparr>, None))
      else nodes_header env ls st)"

definition new_node :: "string \<Rightarrow> int \<Rightarrow> int \<Rightarrow> node" where
  "new_node nm w h =
     \<lparr>node_name = nm, node_width = w, node_height = h, node_x = 0, node_y = 0,
      node_is_fixed = False, node_area = w * h, node_orientation = None\<rparr>"

text \<open>
  A declaration allocates a fresh node object. It is a terminal when the number of
  names already in \<^verbatim>\<open>self.nodes\<close> has reached \<^verbatim>\<open>num_modules - num_terminals\<close>.
\<close>

definition add_node :: "parser \<Rightarrow> string \<Rightarrow> int \<Rightarrow> int \<Rightarrow> parser" where
  "add_node st nm w h =
     (let a = next_addr st; nd = new_node nm w h;
          st1 = (if int (length (nodes st)) \<ge> num_modules st - num_terminals st
                 then st\<lparr>store := (store st)(a := nd\<lparr>node_is_fixed := True\<rparr>),
                         fixed_nodes := dict_set (fixed_nodes st) nm a\<rparr>
                 else st\<lparr>store := (store st)(a := nd),
                         movable_nodes := dict_set (movable_nodes st) nm a\<rparr>)
      in st1\<lparr>nodes := dict_set (nodes st1) nm a, next_addr := Suc a\<rparr>)"

fun nodes_loop ::
  "builtins \<Rightarrow> string list \<Rightarrow> bool \<Rightarrow> parser \<Rightarrow> parser \<times> py_exception option" where
  "nodes_loop env [] node_start st = (st, None)"
| "nodes_loop env (l # ls) node_start st =
     (let line = strip l in
      if line = [] \<or> startswith line ''#'' then nodes_loop env ls node_start st
      else if startswith line ''NumNodes'' \<or> startswith line ''NumTerminals''
      then nodes_loop env ls True st
      else if node_start then
        (let parts = split_ws line in
         if length parts \<ge> 3 then
           (case py_int env (parts ! 1) of
              None \<Rightarrow> (st, Some ValueError)
            | Some w \<Rightarrow>
                (case py_int env (parts ! 2) of
                   None \<Rightarrow> (st, Some ValueError)
                 | Some h \<Rightarrow> nodes_loop env ls node_start (add_node st (parts ! 0) w h)))
         else nodes_loop env ls node_start st)
      else nodes_loop env ls node_start st)"

text \<open>
  \<^verbatim>\<open>parse_nodes\<close>. The file is its list of lines, \<open>None\<close> when it cannot be opened. The
  second component is the exception caught by the method, if any.
\<close>

definition parse_nodes ::
  "builtins \<Rightarrow> string list option \<Rightarrow> parser \<Rightarrow> parser \<times> py_exception option" where
  "parse_nodes env file st =
     (case file of
        None \<Rightarrow> (st, Some OSError)
      | Some lines \<Rightarrow>
          (case nodes_header env lines st of
             (st1, Some e) \<Rightarrow> (st1, Some e)
           | (st1, None) \<Rightarrow>
               (let st2 = st1\<lparr>num_nodes := num_modules st1 - num_terminals st1,
                               cell_count := num_modules st1 - num_terminals st1,
                               object_count := num_modules st1,
                               fixed_count := num_terminals st1,
                               macro_count := 0\<rparr>
                in case nodes_loop env lines False st2 of
                     (st3, Some e) \<Rightarrow> (st3, Some e)
                   | (st3, None) \<Rightarrow>
                       (let ca = sum_list (map (\<lambda>(nm, a). node_area (store st3 a))
                                             (movable_nodes st3))
                        in (st3\<lparr>cell_area := ca, movable_area := ca\<rparr>, None)))))"

text \<open>
  The node declarations of a \<^verbatim>\<open>.nodes\<close> file, in file order, as lists of fields: the
  lines after the first header line that are neither blank, comment nor header and have
  at least three fields. The first field is the name.
\<close>

fun node_records :: "bool \<Rightarrow> string list \<Rightarrow> string list list" where
  "node_records started [] = []"
| "node_records started (l # ls) =
     (let line = strip l in
      if line = [] \<or> startswith line ''#'' then node_records started ls
      else if startswith line ''NumNodes'' \<or> startswith line ''NumTerminals''
      then node_records True ls
      else if started \<and> length (split_ws line) \<ge> 3
      then split_ws line # node_records started ls
      else node_records started ls)"

definition declared_names :: "string list \<Rightarrow> string list" where
  "declared_names lines = map hd (node_records False lines)"

text \<open>
  Sample library functions for evaluating the model on concrete files: decimal
  integers with an optional sign, decimal fractions, and the six-decimal format. They
  agree with Python on such literals.
\<close>

definition digit_val :: "char \<Rightarrow> nat option" where
  "digit_val c = (let n = (of_char c :: nat) in
                  if 48 \<le> n \<and> n \<le> 57 then Some (n - 48) else None)"

fun digits_val :: "nat \<Rightarrow> string \<Rightarrow> nat option" where
  "digits_val acc [] = Some acc"
| "digits_val acc (c # cs) =
     (case digit_val c of None \<Rightarrow> None | Some d \<Rightarrow> digits_val (10 * acc + d) cs)"

definition dec_nat :: "string \<Rightarrow> nat option" where
  "dec_nat s = (if s = [] then None else digits_val 0 s)"

definition dec_int :: "string \<Rightarrow> int option" where
  "dec_int s =
     (case s of
        [] \<Rightarrow> None
      | c # cs \<Rightarrow>
          (if c = CHR ''-'' then map_option (\<lambda>n. - int n) (dec_nat cs)
           else if c = CHR ''+'' then map_option int (dec_nat cs)
           else map_option int (dec_nat s)))"

definition dec_real :: "string \<Rightarrow> real option" where
  "dec_real s =
     (let neg = (s \<noteq> [] \<and> hd s = CHR ''-'');
          body = (if s \<noteq> [] \<and> (hd s = CHR ''-'' \<or> hd s = CHR ''+'') then tl s else s);
          mag = (case split_on CHR ''.'' body of
                   [ip] \<Rightarrow> map_option real (dec_nat ip)
                 | [ip, fp] \<Rightarrow>
                     (if ip = [] \<and> fp = [] then None
                      else (case (digits_val 0 ip, digits_val 0 fp) of
                              (Some i, Some f) \<Rightarrow> Some (real i + real f / 10 ^ length fp)
                            | _ \<Rightarrow> None))
                 | _ \<Rightarrow> None)
      in map_option (\<lambda>m. if neg then - m else m) mag)"

text \<open>\<^verbatim>\<open>str(n)\<close> for a natural number.\<close>

function str_nat :: "nat \<Rightarrow> string" where
  "str_nat n = (if n < 10 then [char_of (48 + n)]
                else str_nat (n div 10) @ [char_of (48 + n mod 10)])"
  by pat_completeness auto
termination
  by (relation "measure id") auto

declare str_nat.simps [simp del]

definition fixed6 :: "real \<Rightarrow> string" where
  "fixed6 r =
     (let v = \<bar>r\<bar> * 1000000; fl = nat \<lfloor>v\<rfloor>; fr = v - real fl;
          n = (if fr > 1 / 2 \<or> (fr = 1 / 2 \<and> odd fl) then Suc fl else fl);
          frac = str_nat (n mod 1000000)
      in (if r < 0 then ''-'' else '''') @ str_nat (n div 1000000) @ ''.''
         @ replicate (6 - length frac) CHR ''0'' @ frac)"

definition sample_builtins :: builtins where
  "sample_builtins =
     \<lparr>py_int = dec_int, py_float = dec_real, format_6f = fixed6,
      strftime_now = ''2025-01-01 00:00:00'',
      spsolve = (\<lambda>A b. Inl SolveError)\<rparr>"

section \<open>\<^verbatim>\<open>parse_nets\<close>\<close>

text \<open>The header loop of \<^verbatim>\<open>parse_nets\<close> stops at the first \<^verbatim>\<open>NumPins\<close> line.\<close>

fun nets_header :: "builtins \<Rightarrow> string list \<Rightarrow> parser \<Rightarrow> parser \<times> py_exception option" where
  "nets_header env [] st = (st, None)"
| "nets_header env (l # ls) st =
     (let line = strip l in
      if startswith line ''NumNets'' then
        (case header_int env line of
           Inl e \<Rightarrow> (st, Some e)
         | Inr n \<Rightarrow> nets_header env ls (st\<lparr>num_nets := n\<rparr>))
      else if startswith line ''NumPins'' then
        (case header_int env line of
           Inl e \<Rightarrow> (st, Some e)
         | Inr n \<Rightarrow> (st\<lparr>num_pins := n\<rparr>, None))
      else nets_header env ls st)"

text \<open>
  The local variables of the net loop: \<^verbatim>\<open>current_net\<close>, \<^verbatim>\<open>net_pins\<close> and \<^verbatim>\<open>net_degrees\<close>.
\<close>

record net_locals =
  current_net :: "string option"
  cur_pins :: "pin list"
  net_degrees :: "nat list"

text \<open>
  \<^verbatim>\<open>if current_net is not None and net_pins: self.nets.append(...)\<close>: a net is stored
  only when it has collected at least one pin, with \<^verbatim>\<open>len(net_pins)\<close> as its degree.
\<close>

definition save_net :: "net_locals \<Rightarrow> parser \<Rightarrow> parser \<times> net_locals" where
  "save_net loc st =
     (case current_net loc of
        None \<Rightarrow> (st, loc)
      | Some nm \<Rightarrow>
          (if cur_pins loc \<noteq> []
           then (st\<lparr>nets := nets st @ [\<lparr>net_name = nm, net_pins = cur_pins loc,
                                         net_degree = length (cur_pins loc)\<rparr>]\<rparr>,
                 loc\<lparr>net_degrees := net_degrees loc @ [length (cur_pins loc)]\<rparr>)
           else (st, loc)))"

text \<open>
  A \<^verbatim>\<open>NetDegree\<close> line: after the previous net is saved, the declared degree is
  converted (and never used again) and the name is the second field after the colon,
  or \<^verbatim>\<open>net_<len(self.nets)>\<close> when there is none.
\<close>

definition net_header :: "builtins \<Rightarrow> string \<Rightarrow> parser \<Rightarrow> py_exception + string" where
  "net_header env line st =
     (case index (split_on CHR '':'' line) 1 of
        Inl e \<Rightarrow> Inl e
      | Inr v \<Rightarrow>
          (let fields = split_ws (strip v) in
           case index fields 0 of
             Inl e \<Rightarrow> Inl e
           | Inr d \<Rightarrow>
               (case py_int env d of
                  None \<Rightarrow> Inl ValueError
                | Some degree \<Rightarrow>
                    Inr (if length fields > 1 then fields ! 1
                         else ''net_'' @ str_nat (length (nets st))))))"

text \<open>
  A pin line: the pin is appended only if its node name is a key of \<^verbatim>\<open>self.nodes\<close>;
  otherwise nothing happens.
\<close>

definition add_pin :: "parser \<Rightarrow> string \<Rightarrow> net_locals \<Rightarrow> net_locals" where
  "add_pin st line loc =
     (let parts = split_ws line in
      if length parts \<ge> 1 then
        (let node_name = parts ! 0;
             pin_type = (if length parts > 1 then parts ! 1 else ''I'')
         in if dict_has (nodes st) node_name
            then loc\<lparr>cur_pins := cur_pins loc @ [\<lparr>pin_node = node_name, pin_type = pin_type\<rparr>]\<rparr>
            else loc)
      else loc)"

fun nets_loop ::
  "builtins \<Rightarrow> string list \<Rightarrow> net_locals \<Rightarrow> parser \<Rightarrow>
   (parser \<times> net_locals) \<times> py_exception option" where
  "nets_loop env [] loc st = ((st, loc), None)"
| "nets_loop env (l # ls) loc st =
     (let line = strip l in
      if line = [] \<or> startswith line ''#'' then nets_loop env ls loc st
      else if startswith line ''NumNets'' \<or> startswith line ''NumPins''
      then nets_loop env ls loc st
      else if startswith line ''NetDegree'' then
        (let (st1, loc1) = save_net loc st in
         case net_header env line st1 of
           Inl e \<Rightarrow> ((st1, loc1), Some e)
         | Inr nm \<Rightarrow> nets_loop env ls (loc1\<lparr>current_net := Some nm, cur_pins := []\<rparr>) st1)
      else nets_loop env ls (add_pin st line loc) st)"

definition count_where :: "(nat \<Rightarrow> bool) \<Rightarrow> nat list \<Rightarrow> nat" where
  "count_where P ds = length (filter P ds)"

definition parse_nets ::
  "builtins \<Rightarrow> string list option \<Rightarrow> parser \<Rightarrow> parser \<times> py_exception option" where
  "parse_nets env file st =
     (case file of
        None \<Rightarrow> (st, Some OSError)
      | Some lines \<Rightarrow>
          (case nets_header env lines st of
             (st1, Some e) \<Rightarrow> (st1, Some e)
           | (st1, None) \<Rightarrow>
               (let st2 = st1\<lparr>net_count := num_nets st1, total_pin_count := num_pins st1\<rparr>
                in case nets_loop env lines
                          \<lparr>current_net = None, cur_pins = [], net_degrees = []\<rparr> st2 of
                     ((st3, loc), Some e) \<Rightarrow> (st3, Some e)
                   | ((st3, loc), None) \<Rightarrow>
                       (let (st4, loc4) = save_net loc st3; ds = net_degrees loc4
                        in if ds \<noteq> []
                           then (st4\<lparr>max_net_degree := Max (set ds),
                                     pin_2_count := count_where (\<lambda>d. d = 2) ds,
                                     pin_3_10_count := count_where (\<lambda>d. 3 \<le> d \<and> d \<le> 10) ds,
                                     pin_11_100_count :=
                                       count_where (\<lambda>d. 11 \<le> d \<and> d \<le> 100) ds,
                                     pin_100_plus_count := count_where (\<lambda>d. d > 100) ds\<rparr>,
                                 None)
                           else (st4, None)))))"

text \<open>
  The net blocks of a \<^verbatim>\<open>.nets\<close> file: for each \<^verbatim>\<open>NetDegree\<close> line the pin lines that
  follow it up to the next \<^verbatim>\<open>NetDegree\<close> line. Blank lines, comments and the two header
  lines are not pin lines.
\<close>

definition nets_lines :: "string list \<Rightarrow> string list" where
  "nets_lines lines =
     filter (\<lambda>line. \<not> (line = [] \<or> startswith line ''#'' \<or>
                        startswith line ''NumNets'' \<or> startswith line ''NumPins''))
       (map strip lines)"

fun blocks_after :: "('a \<Rightarrow> bool) \<Rightarrow> 'a list \<Rightarrow> 'a list list" where
  "blocks_after sep [] = []"
| "blocks_after sep (l # ls) =
     (if sep l then takeWhile (\<lambda>l'. \<not> sep l') ls # blocks_after sep ls
      else blocks_after sep ls)"

definition net_blocks :: "string list \<Rightarrow> string list list" where
  "net_blocks lines = blocks_after (\<lambda>line. startswith line ''NetDegree'') (nets_lines lines)"

text \<open>A pin line is known when its first field names a node of the design.\<close>

definition known_pin :: "parser \<Rightarrow> string \<Rightarrow> bool" where
  "known_pin st line =
     (case split_ws line of [] \<Rightarrow> False | nm # rest \<Rightarrow> dict_has (nodes st) nm)"

definition known_pin_counts :: "parser \<Rightarrow> string list \<Rightarrow> nat list" where
  "known_pin_counts st lines =
     map (\<lambda>block. length (filter (known_pin st) block)) (net_blocks lines)"

text \<open>
  A dangling pin line: a line in pin position (not blank, comment, header or
  \<^verbatim>\<open>NetDegree\<close>) whose first field is not a node of the design.
\<close>

definition dangling_pin :: "parser \<Rightarrow> string \<Rightarrow> bool" where
  "dangling_pin st l =
     (let line = strip l in
      \<not> (line = [] \<or> startswith line ''#'' \<or> startswith line ''NumNets'' \<or>
         startswith line ''NumPins'' \<or> startswith line ''NetDegree'') \<and>
      \<not> known_pin st line)"

text \<open>
  The state of the node loop after the declarations \<open>names\<close>: \<^verbatim>\<open>self.nodes\<close> lists them in
  order, the first \<open>num_modules - num_terminals\<close> entries are the movable nodes and
  the later entries the fixed nodes, and the flag \<^verbatim>\<open>is_fixed\<close> of each stored object
  agrees.
\<close>

definition nodes_inv :: "parser \<Rightarrow> string list \<Rightarrow> bool" where
  "nodes_inv st names =
     (let k = nat (num_modules st - num_terminals st) in
      dict_keys (nodes st) = names \<and>
      movable_nodes st = take k (nodes st) \<and>
      fixed_nodes st = drop k (nodes st) \<and>
      list_all (\<lambda>(nm, a). a < next_addr st \<and> \<not> node_is_fixed (store st a) \<and>
                           node_name (store st a) = nm) (movable_nodes st) \<and>
      list_all (\<lambda>(nm, a). a < next_addr st \<and> node_is_fixed (store st a) \<and>
                           node_name (store st a) = nm) (fixed_nodes st))"

text \<open>A \<^verbatim>\<open>.nodes\<close> file with two cells and one terminal, and one with a fourth record.\<close>

definition sample_nodes :: "string list" where
  "sample_nodes = [''UCLA nodes 1.0'', ''# cells'', '''', ''NumNodes : 3'',
                   ''NumTerminals : 1'', ''  a 1 2'', ''b 3 4'', ''t 5 6 terminal'']"

definition long_nodes :: "string list" where
  "long_nodes = [''NumNodes : 3'', ''NumTerminals : 1'', ''a 1 2'', ''b 3 4'',
                 ''t 5 6 terminal'', ''u 7 8 terminal'']"

text \<open>
  Two \<^verbatim>\<open>.nets\<close> files over the nodes of \<open>sample_nodes\<close>. In the first, net \<open>n0\<close> has a
  pin on the undeclared node \<open>zz\<close>. In the second, net \<open>n1\<close> has no pin on a declared
  node at all.
\<close>

definition dangling_nets :: "string list" where
  "dangling_nets = [''UCLA nets 1.0'', ''NumNets : 2'', ''NumPins : 4'',
                    ''NetDegree : 2 n0'', ''  a I'', ''  zz O'',
                    ''NetDegree : 2 n1'', ''  b I'', ''  t O'']"

definition orphan_nets :: "string list" where
  "orphan_nets = [''UCLA nets 1.0'', ''NumNets : 2'', ''NumPins : 5'',
                  ''NetDegree : 3 n0'', ''  a I'', ''  zz O'', ''  t O'',
                  ''NetDegree : 2 n1'', ''  yy I'', ''  zz O'']"

definition sample_parsed_nodes :: parser where
  "sample_parsed_nodes = fst (parse_nodes sample_builtins (Some sample_nodes) empty_parser)"

text \<open>Auxiliary notions for the net loop: the lines it skips, and the pin count of the
  net that is still open.\<close>

definition nets_skipped :: "string \<Rightarrow> bool" where
  "nets_skipped line = (line = [] \<or> startswith line ''#'' \<or>
                        startswith line ''NumNets'' \<or> startswith line ''NumPins'')"

definition pending :: "net_locals \<Rightarrow> nat option" where
  "pending loc = (case current_net loc of None \<Rightarrow> None | Some nm \<Rightarrow> Some (length (cur_pins loc)))"

definition pending_counts :: "(string \<Rightarrow> bool) \<Rightarrow> nat option \<Rightarrow> string list \<Rightarrow> nat list" where
  "pending_counts K pend ls =
     (let sep = (\<lambda>line. startswith line ''NetDegree'');
          rest = map (\<lambda>block. length (filter K block)) (blocks_after sep ls)
      in case pend of
           None \<Rightarrow> rest
         | Some c \<Rightarrow> (c + length (filter K (takeWhile (\<lambda>l. \<not> sep l) ls))) # rest)"

definition net_ok :: "parser \<Rightarrow> net \<Rightarrow> bool" where
  "net_ok st n = (net_degree n = length (net_pins n) \<and> net_pins n \<noteq> [] \<and>
                  list_all (\<lambda>p. dict_has (nodes st) (pin_node p)) (net_pins n))"

section \<open>Properties of the boundary clipper\<close>

lemma clip_node_dims:
  "node_width (clip_node ll ur nd) = node_width nd"
  "node_height (clip_node ll ur nd) = node_height nd"
  by (simp_all add: clip_node_def Let_def)

lemma clip_pow_dims:
  "node_width ((clip_node ll ur ^^ k) nd) = node_width nd"
  "node_height ((clip_node ll ur ^^ k) nd) = node_height nd"
  by (induction k) (simp_all add: clip_node_dims)

lemma clip_node_x_range:
  "real_of_int (node_width nd) \<le> fst ur - fst ll \<Longrightarrow>
   fst ll \<le> node_x (clip_node ll ur nd) \<and>
   node_x (clip_node ll ur nd) \<le> fst ur - real_of_int (node_width nd)"
  by (auto simp add: clip_node_def Let_def)

lemma clip_node_y_range:
  "real_of_int (node_height nd) \<le> snd ur - snd ll \<Longrightarrow>
   snd ll \<le> node_y (clip_node ll ur nd) \<and>
   node_y (clip_node ll ur nd) \<le> snd ur - real_of_int (node_height nd)"
  by (auto simp add: clip_node_def Let_def)

lemma clip_node_x_stable:
  "fst ll \<le> node_x nd \<Longrightarrow> node_x nd \<le> fst ur - real_of_int (node_width nd) \<Longrightarrow>
   node_x (clip_node ll ur nd) = node_x nd"
  by (auto simp add: clip_node_def Let_def)

lemma clip_node_y_stable:
  "snd ll \<le> node_y nd \<Longrightarrow> node_y nd \<le> snd ur - real_of_int (node_height nd) \<Longrightarrow>
   node_y (clip_node ll ur nd) = node_y nd"
  by (auto simp add: clip_node_def Let_def)

lemma clip_pow_x_range:
  assumes "real_of_int (node_width nd) \<le> fst ur - fst ll"
  shows "fst ll \<le> node_x ((clip_node ll ur ^^ Suc k) nd) \<and>
         node_x ((clip_node ll ur ^^ Suc k) nd) \<le> fst ur - real_of_int (node_width nd)"
  using clip_node_x_range [of "(clip_node ll ur ^^ k) nd" ur ll] assms
  by (simp add: clip_pow_dims)

lemma clip_pow_y_range:
  assumes "real_of_int (node_height nd) \<le> snd ur - snd ll"
  shows "snd ll \<le> node_y ((clip_node ll ur ^^ Suc k) nd) \<and>
         node_y ((clip_node ll ur ^^ Suc k) nd) \<le> snd ur - real_of_int (node_height nd)"
  using clip_node_y_range [of "(clip_node ll ur ^^ k) nd" ur ll] assms
  by (simp add: clip_pow_dims)

lemma clip_pow_x_stable:
  assumes "fst ll \<le> node_x nd" "node_x nd \<le> fst ur - real_of_int (node_width nd)"
  shows "node_x ((clip_node ll ur ^^ m) nd) = node_x nd"
proof (induction m)
  case 0
  show ?case by simp
next
  case (Suc m)
  have "node_x (clip_node ll ur ((clip_node ll ur ^^ m) nd)) = node_x ((clip_node ll ur ^^ m) nd)"
    by (rule clip_node_x_stable) (simp_all add: Suc clip_pow_dims assms)
  then show ?case by (simp add: Suc)
qed

lemma clip_pow_y_stable:
  assumes "snd ll \<le> node_y nd" "node_y nd \<le> snd ur - real_of_int (node_height nd)"
  shows "node_y ((clip_node ll ur ^^ m) nd) = node_y nd"
proof (induction m)
  case 0
  show ?case by simp
next
  case (Suc m)
  have "node_y (clip_node ll ur ((clip_node ll ur ^^ m) nd)) = node_y ((clip_node ll ur ^^ m) nd)"
    by (rule clip_node_y_stable) (simp_all add: Suc clip_pow_dims assms)
  then show ?case by (simp add: Suc)
qed

text \<open>
  One pass of the clipper applies \<open>clip_node\<close> to a stored node once for every entry
  of \<^verbatim>\<open>movable_nodes\<close> that refers to it.
\<close>

lemma legalize_loop_funpow:
  "legalize_loop ll ur items h a =
     (clip_node ll ur ^^ count_list (map snd items) a) (h a)"
proof (induction items arbitrary: h)
  case Nil
  show ?case by simp
next
  case (Cons p items)
  obtain nm b where p: "p = (nm, b)" by (cases p)
  let ?h = "h(b := clip_node ll ur (h b))"
  have step: "legalize_loop ll ur (p # items) h a = legalize_loop ll ur items ?h a"
    using p by simp
  have ih: "legalize_loop ll ur items ?h a =
              (clip_node ll ur ^^ count_list (map snd items) a) (?h a)"
    by (rule Cons.IH)
  show ?case
  proof (cases "a = b")
    case True
    then show ?thesis
      using step ih p by (simp add: funpow_swap1)
  next
    case False
    then show ?thesis
      using step ih p by simp
  qed
qed

lemma count_movable_pos:
  "(nm, a) \<in> set items \<Longrightarrow> \<exists>k. count_list (map snd items) a = Suc k"
proof -
  assume "(nm, a) \<in> set items"
  then have "a \<in> set (map snd items)" by force
  then have "count_list (map snd items) a \<noteq> 0"
    using count_list_0_iff [of "map snd items" a] by blast
  then show ?thesis using not0_implies_Suc by blast
qed

text \<open>
  C4 (as amended). After one pass of \<^verbatim>\<open>legalize_placement\<close>, a movable node whose width
  does not exceed the core span \<open>max_x - min_x\<close> has its x coordinate in
  \<open>[min_x, max_x - width]\<close>, and a movable node whose height does not exceed
  \<open>max_y - min_y\<close> has its y coordinate in \<open>[min_y, max_y - height]\<close>. A node wider
  than the core that is listed once is moved to \<open>min_x\<close> only when it started left of
  \<open>min_x\<close>; otherwise it is moved to \<open>max_x - width\<close>, which lies left of the core.
\<close>

theorem legalize_placement_in_core:
  assumes "(nm, a) \<in> set (movable_nodes st)"
  defines "nd \<equiv> store st a"
  defines "nd' \<equiv> store (fst (legalize_placement st)) a"
  defines "min_x \<equiv> fst (core_lower_left st)" and "max_x \<equiv> fst (core_upper_right st)"
  defines "min_y \<equiv> snd (core_lower_left st)" and "max_y \<equiv> snd (core_upper_right st)"
  shows "(real_of_int (node_width nd) \<le> max_x - min_x \<longrightarrow>
            min_x \<le> node_x nd' \<and> node_x nd' \<le> max_x - real_of_int (node_width nd)) \<and>
         (real_of_int (node_height nd) \<le> max_y - min_y \<longrightarrow>
            min_y \<le> node_y nd' \<and> node_y nd' \<le> max_y - real_of_int (node_height nd)) \<and>
         (max_x - real_of_int (node_width nd) < min_x \<and>
          count_list (map snd (movable_nodes st)) a = 1 \<longrightarrow>
            node_x nd' = (if node_x nd < min_x then min_x
                          else max_x - real_of_int (node_width nd)))"
proof -
  obtain k where k: "count_list (map snd (movable_nodes st)) a = Suc k"
    using count_movable_pos [OF assms(1)] by blast
  have nd': "nd' = (clip_node (core_lower_left st) (core_upper_right st) ^^ Suc k) nd"
    unfolding nd'_def nd_def by (simp add: legalize_placement_def legalize_loop_funpow k)
  have px: "real_of_int (node_width nd) \<le> max_x - min_x \<longrightarrow>
            min_x \<le> node_x nd' \<and> node_x nd' \<le> max_x - real_of_int (node_width nd)"
    unfolding nd' min_x_def max_x_def using clip_pow_x_range by blast
  have py: "real_of_int (node_height nd) \<le> max_y - min_y \<longrightarrow>
            min_y \<le> node_y nd' \<and> node_y nd' \<le> max_y - real_of_int (node_height nd)"
    unfolding nd' min_y_def max_y_def using clip_pow_y_range by blast
  have pw: "max_x - real_of_int (node_width nd) < min_x \<and>
            count_list (map snd (movable_nodes st)) a = 1 \<longrightarrow>
            node_x nd' = (if node_x nd < min_x then min_x
                          else max_x - real_of_int (node_width nd))"
    unfolding nd' min_x_def max_x_def using k
    by (auto simp add: clip_node_def Let_def)
  show ?thesis using px py pw by blast
qed

theorem legalize_placement_in_core_witness:
  "(''a'', 0) \<in> set (movable_nodes small_design) \<and>
   node_x (store (fst (legalize_placement small_design)) 0) = 2 \<and>
   node_y (store (fst (legalize_placement small_design)) 0) = 0"
  using legalize_placement_in_core [of "''a''" 0 small_design]
  by (simp add: small_design_def wide_design_def empty_parser_def wide_cell_def
      legalize_placement_def clip_node_def Let_def)

text \<open>
  C4 as stated fails for the cell of width 10 at x = 3 in the core 0..5: the clipper
  moves it to \<open>max_x - width = -5\<close>, not to \<open>min_x = 0\<close>.
\<close>

theorem legalize_placement_pin_counterexample:
  "fst (core_upper_right wide_design) - real_of_int (node_width (store wide_design 0))
     < fst (core_lower_left wide_design) \<and>
   node_x (store (fst (legalize_placement wide_design)) 0) = - 5 \<and>
   node_x (store (fst (legalize_placement wide_design)) 0) \<noteq> fst (core_lower_left wide_design)"
  by (simp add: wide_design_def empty_parser_def wide_cell_def
      legalize_placement_def clip_node_def Let_def)

text \<open>
  C3 (as amended). For every movable node, a second pass of \<^verbatim>\<open>legalize_placement\<close>
  leaves the x coordinate of the first pass unchanged when the node's width does not
  exceed the core span \<open>max_x - min_x\<close>, and leaves the y coordinate unchanged when its
  height does not exceed \<open>max_y - min_y\<close>.
\<close>

theorem legalize_placement_idempotent:
  assumes "(nm, a) \<in> set (movable_nodes st)"
  defines "nd \<equiv> store st a"
  defines "once \<equiv> fst (legalize_placement st)"
  defines "twice \<equiv> fst (legalize_placement once)"
  shows "(real_of_int (node_width nd)
            \<le> fst (core_upper_right st) - fst (core_lower_left st) \<longrightarrow>
          node_x (store twice a) = node_x (store once a)) \<and>
         (real_of_int (node_height nd)
            \<le> snd (core_upper_right st) - snd (core_lower_left st) \<longrightarrow>
          node_y (store twice a) = node_y (store once a))"
proof -
  let ?ll = "core_lower_left st" and ?ur = "core_upper_right st"
  obtain k where k: "count_list (map snd (movable_nodes st)) a = Suc k"
    using count_movable_pos [OF assms(1)] by blast
  have o: "store once a = (clip_node ?ll ?ur ^^ Suc k) nd"
    unfolding once_def nd_def by (simp add: legalize_placement_def legalize_loop_funpow k)
  have t: "store twice a = (clip_node ?ll ?ur ^^ Suc k) (store once a)"
    unfolding twice_def once_def
    by (simp add: legalize_placement_def legalize_loop_funpow k)
  have dims: "node_width (store once a) = node_width nd"
             "node_height (store once a) = node_height nd"
    unfolding o by (rule clip_pow_dims)+
  have px: "node_x (store twice a) = node_x (store once a)"
    if w: "real_of_int (node_width nd) \<le> fst ?ur - fst ?ll"
  proof -
    have "fst ?ll \<le> node_x (store once a) \<and>
          node_x (store once a) \<le> fst ?ur - real_of_int (node_width nd)"
      unfolding o using clip_pow_x_range [OF w] by blast
    then show ?thesis
      unfolding t using clip_pow_x_stable [of ?ll "store once a" ?ur "Suc k"] dims by simp
  qed
  have py: "node_y (store twice a) = node_y (store once a)"
    if w: "real_of_int (node_height nd) \<le> snd ?ur - snd ?ll"
  proof -
    have "snd ?ll \<le> node_y (store once a) \<and>
          node_y (store once a) \<le> snd ?ur - real_of_int (node_height nd)"
      unfolding o using clip_pow_y_range [OF w] by blast
    then show ?thesis
      unfolding t using clip_pow_y_stable [of ?ll "store once a" ?ur "Suc k"] dims by simp
  qed
  show ?thesis using px py by blast
qed

theorem legalize_placement_idempotent_witness:
  "(''a'', 0) \<in> set (movable_nodes small_design) \<and>
   node_x (store (fst (legalize_placement (fst (legalize_placement small_design)))) 0)
     = node_x (store (fst (legalize_placement small_design)) 0) \<and>
   node_y (store (fst (legalize_placement (fst (legalize_placement small_design)))) 0)
     = node_y (store (fst (legalize_placement small_design)) 0)"
  using legalize_placement_idempotent [of "''a''" 0 small_design]
  by (simp add: small_design_def wide_design_def empty_parser_def wide_cell_def)

text \<open>
  C3 as stated fails for the cell wider than the core: the first pass moves it from
  x = 3 to x = -5, the second pass moves it from -5 to 0.
\<close>

theorem legalize_placement_twice_counterexample:
  "node_x (store (fst (legalize_placement wide_design)) 0) = - 5 \<and>
   node_x (store (fst (legalize_placement (fst (legalize_placement wide_design)))) 0) = 0"
  by (simp add: wide_design_def empty_parser_def wide_cell_def
      legalize_placement_def clip_node_def Let_def)

section \<open>Properties of \<^verbatim>\<open>parse_nodes\<close>\<close>

lemma dict_set_new: "k \<notin> set (dict_keys d) \<Longrightarrow> dict_set d k v = d @ [(k, v)]"
  unfolding dict_set_def dict_keys_def by (induction d) auto

lemma add_node_header:
  "num_modules (add_node st nm w h) = num_modules st"
  "num_terminals (add_node st nm w h) = num_terminals st"
  by (simp_all add: add_node_def Let_def)

lemma add_node_inv:
  assumes "nodes_inv st names" "nm \<notin> set names"
  shows "nodes_inv (add_node st nm w h) (names @ [nm])"
proof -
  let ?k = "nat (num_modules st - num_terminals st)"
  let ?a = "next_addr st"
  let ?P = "\<lambda>s (nm, a). a < next_addr s \<and> \<not> node_is_fixed (store s a) \<and>
                           node_name (store s a) = nm"
  let ?Q = "\<lambda>s (nm, a). a < next_addr s \<and> node_is_fixed (store s a) \<and>
                           node_name (store s a) = nm"
  have keys: "dict_keys (nodes st) = names" and mv: "movable_nodes st = take ?k (nodes st)"
    and fx: "fixed_nodes st = drop ?k (nodes st)"
    and la: "list_all (?P st) (movable_nodes st)"
    and lb: "list_all (?Q st) (fixed_nodes st)"
    using assms(1) unfolding nodes_inv_def Let_def by blast+
  have len: "length (nodes st) = length names"
    using keys by (metis dict_keys_def length_map)
  have nn: "nm \<notin> set (dict_keys (nodes st))" using keys assms(2) by simp
  have sub1: "set (movable_nodes st) \<subseteq> set (nodes st)"
    unfolding mv by (rule set_take_subset)
  have sub2: "set (fixed_nodes st) \<subseteq> set (nodes st)"
    unfolding fx by (rule set_drop_subset)
  have nm': "nm \<notin> set (dict_keys (movable_nodes st))"
    using sub1 nn unfolding dict_keys_def by auto
  have nf: "nm \<notin> set (dict_keys (fixed_nodes st))"
    using sub2 nn unfolding dict_keys_def by auto
  let ?st = "add_node st nm w h"
  have hdr: "nat (num_modules ?st - num_terminals ?st) = ?k"
    by (simp add: add_node_header)
  have nxt: "next_addr ?st = Suc ?a" by (simp add: add_node_def Let_def)
  have nds: "nodes ?st = nodes st @ [(nm, ?a)]"
    using nn by (simp add: add_node_def Let_def dict_set_new)
  have c1: "dict_keys (nodes ?st) = names @ [nm]"
    unfolding nds using keys by (simp add: dict_keys_def)
  have old: "store ?st b = store st b" if "b < ?a" for b
    using that by (simp add: add_node_def Let_def)
  have keepP: "list_all (?P ?st) (movable_nodes st)"
    using la old nxt unfolding list_all_iff by fastforce
  have keepQ: "list_all (?Q ?st) (fixed_nodes st)"
    using lb old nxt unfolding list_all_iff by fastforce
  show ?thesis
  proof (cases "?k \<le> length names")
    case True
    then have cond: "int (length (nodes st)) \<ge> num_modules st - num_terminals st"
      using len by auto
    have m': "movable_nodes ?st = movable_nodes st"
      using cond by (simp add: add_node_def Let_def)
    have f': "fixed_nodes ?st = fixed_nodes st @ [(nm, ?a)]"
      using cond nf by (simp add: add_node_def Let_def dict_set_new)
    have new: "?Q ?st (nm, ?a)"
      using cond by (simp add: add_node_def Let_def new_node_def)
    have c2: "movable_nodes ?st = take ?k (nodes ?st)"
      unfolding m' nds mv using True len by simp
    have c3: "fixed_nodes ?st = drop ?k (nodes ?st)"
      unfolding f' nds fx using True len by simp
    have c4: "list_all (?P ?st) (movable_nodes ?st)" unfolding m' by (rule keepP)
    have c5: "list_all (?Q ?st) (fixed_nodes ?st)"
      unfolding f' using keepQ new by simp
    show ?thesis
      unfolding nodes_inv_def Let_def hdr using c1 c2 c3 c4 c5 by blast
  next
    case False
    then have cond: "\<not> int (length (nodes st)) \<ge> num_modules st - num_terminals st"
      using len by auto
    have m': "movable_nodes ?st = movable_nodes st @ [(nm, ?a)]"
      using cond nm' by (simp add: add_node_def Let_def dict_set_new)
    have f': "fixed_nodes ?st = fixed_nodes st"
      using cond by (simp add: add_node_def Let_def)
    have new: "?P ?st (nm, ?a)"
      using cond by (simp add: add_node_def Let_def new_node_def)
    have c2: "movable_nodes ?st = take ?k (nodes ?st)"
      unfolding m' nds mv using False len by simp
    have c3: "fixed_nodes ?st = drop ?k (nodes ?st)"
      unfolding f' nds fx using False len by simp
    have c4: "list_all (?P ?st) (movable_nodes ?st)"
      unfolding m' using keepP new by simp
    have c5: "list_all (?Q ?st) (fixed_nodes ?st)" unfolding f' by (rule keepQ)
    show ?thesis
      unfolding nodes_inv_def Let_def hdr using c1 c2 c3 c4 c5 by blast
  qed
qed

lemma nodes_loop_inv:
  "nodes_loop env lines started st = (st', None) \<Longrightarrow> nodes_inv st names \<Longrightarrow>
   distinct (names @ map hd (node_records started lines)) \<Longrightarrow>
   nodes_inv st' (names @ map hd (node_records started lines)) \<and>
   num_modules st' = num_modules st \<and> num_terminals st' = num_terminals st"
proof (induction lines arbitrary: started st names)
  case Nil
  then show ?case by simp
next
  case (Cons l ls)
  let ?line = "strip l"
  show ?case
  proof (cases "?line = [] \<or> startswith ?line ''#''")
    case True
    then show ?thesis using Cons.IH [of started st names] Cons.prems by (simp add: Let_def)
  next
    case skip: False
    show ?thesis
    proof (cases "startswith ?line ''NumNodes'' \<or> startswith ?line ''NumTerminals''")
      case True
      then show ?thesis using skip Cons.IH [of True st names] Cons.prems by (simp add: Let_def)
    next
      case hdr: False
      show ?thesis
      proof (cases "started \<and> length (split_ws ?line) \<ge> 3")
        case False
        have eq: "nodes_loop env (l # ls) started st = nodes_loop env ls started st"
          using False skip hdr by (cases started) (simp_all add: Let_def)
        have recs: "node_records started (l # ls) = node_records started ls"
          using False skip hdr by (cases started) (simp_all add: Let_def)
        show ?thesis using Cons.IH [of started st names] Cons.prems unfolding eq recs
          by blast
      next
        case True
        let ?parts = "split_ws ?line"
        have unf: "nodes_loop env (l # ls) started st =
            (case py_int env (?parts ! 1) of
              None \<Rightarrow> (st, Some ValueError)
            | Some w \<Rightarrow>
                (case py_int env (?parts ! 2) of
                   None \<Rightarrow> (st, Some ValueError)
                 | Some h \<Rightarrow> nodes_loop env ls started (add_node st (?parts ! 0) w h)))"
          using True skip hdr by (auto simp add: Let_def split: option.splits)
        from Cons.prems(1) obtain w h where
          w: "py_int env (?parts ! 1) = Some w" and h: "py_int env (?parts ! 2) = Some h"
          and rest: "nodes_loop env ls started (add_node st (?parts ! 0) w h) = (st', None)"
          unfolding unf by (auto split: option.splits)
        have hd0: "hd ?parts = ?parts ! 0" using True by (cases ?parts) auto
        have recs: "node_records started (l # ls) = ?parts # node_records started ls"
          using True skip hdr by (simp add: Let_def)
        have fresh: "?parts ! 0 \<notin> set names" using Cons.prems(3) recs hd0 by auto
        have inv': "nodes_inv (add_node st (?parts ! 0) w h) (names @ [?parts ! 0])"
          by (rule add_node_inv [OF Cons.prems(2) fresh])
        have dist': "distinct ((names @ [?parts ! 0]) @ map hd (node_records started ls))"
          using Cons.prems(3) recs hd0 by simp
        show ?thesis
          using Cons.IH [OF rest inv' dist'] recs hd0 by (simp add: add_node_header)
      qed
    qed
  qed
qed

lemma nodes_header_dicts:
  "nodes_header env lines st = (st', e) \<Longrightarrow>
   nodes st' = nodes st \<and> movable_nodes st' = movable_nodes st \<and>
   fixed_nodes st' = fixed_nodes st \<and> store st' = store st \<and> next_addr st' = next_addr st"
proof (induction lines arbitrary: st)
  case Nil
  then show ?case by auto
next
  case (Cons l ls)
  show ?case
  proof (cases "startswith (strip l) ''NumNodes''")
    case True
    show ?thesis
    proof (cases "header_int env (strip l)")
      case (Inl ex)
      then show ?thesis using True Cons.prems by (auto simp add: Let_def)
    next
      case (Inr n)
      then show ?thesis
        using True Cons.prems Cons.IH [of "st\<lparr>num_modules := n\<rparr>"] by (simp add: Let_def)
    qed
  next
    case False
    show ?thesis
    proof (cases "startswith (strip l) ''NumTerminals''")
      case True
      then show ?thesis using False Cons.prems
        by (auto simp add: Let_def split: sum.splits)
    next
      case nt: False
      then show ?thesis using False Cons.prems Cons.IH [of st] by (simp add: Let_def)
    qed
  qed
qed

text \<open>
  C6 (as amended). Let \<^verbatim>\<open>parse_nodes\<close> complete without an exception on a parser whose
  three node dictionaries are empty, for a file whose declared names are distinct, and
  let \<open>N = num_modules\<close> and \<open>T = num_terminals\<close> be the header values as the parser
  has read them. Then \<^verbatim>\<open>self.nodes\<close> lists the declarations in file order,
  \<^verbatim>\<open>movable_nodes\<close> is its first \<open>N - T\<close> entries (none if \<open>N - T\<close> is negative), each
  with \<^verbatim>\<open>is_fixed = False\<close>, and \<^verbatim>\<open>fixed_nodes\<close> is all the later entries, each with
  \<^verbatim>\<open>is_fixed = True\<close>. If moreover the file declares exactly \<open>N\<close> nodes and
  \<open>0 \<le> T \<le> N\<close>, exactly \<open>T\<close> nodes are fixed.
\<close>

theorem parse_nodes_classification:
  assumes "parse_nodes env (Some lines) st0 = (st, None)"
      and "nodes st0 = []" and "movable_nodes st0 = []" and "fixed_nodes st0 = []"
      and "distinct (declared_names lines)"
  defines "k \<equiv> nat (num_modules st - num_terminals st)"
  shows "dict_keys (nodes st) = declared_names lines \<and>
         movable_nodes st = take k (nodes st) \<and>
         fixed_nodes st = drop k (nodes st) \<and>
         list_all (\<lambda>(nm, a). \<not> node_is_fixed (store st a) \<and> node_name (store st a) = nm)
           (movable_nodes st) \<and>
         list_all (\<lambda>(nm, a). node_is_fixed (store st a) \<and> node_name (store st a) = nm)
           (fixed_nodes st) \<and>
         (int (length (declared_names lines)) = num_modules st \<and>
          0 \<le> num_terminals st \<and> num_terminals st \<le> num_modules st \<longrightarrow>
            int (length (fixed_nodes st)) = num_terminals st)"
proof -
  obtain st1 where h: "nodes_header env lines st0 = (st1, None)"
    using assms(1) by (auto simp add: parse_nodes_def split: prod.splits option.splits)
  let ?st2 = "st1\<lparr>num_nodes := num_modules st1 - num_terminals st1,
                    cell_count := num_modules st1 - num_terminals st1,
                    object_count := num_modules st1,
                    fixed_count := num_terminals st1,
                    macro_count := 0\<rparr>"
  obtain st3 where l: "nodes_loop env lines False ?st2 = (st3, None)"
    and st: "st = st3\<lparr>cell_area := sum_list (map (\<lambda>(nm, a). node_area (store st3 a))
                                             (movable_nodes st3)),
                       movable_area := sum_list (map (\<lambda>(nm, a). node_area (store st3 a))
                                             (movable_nodes st3))\<rparr>"
    using assms(1) h
    by (auto simp add: parse_nodes_def Let_def split: prod.splits option.splits)
  have d: "nodes st1 = []" "movable_nodes st1 = []" "fixed_nodes st1 = []"
    using nodes_header_dicts [OF h] assms(2-4) by simp_all
  have inv0: "nodes_inv ?st2 []"
    using d by (simp add: nodes_inv_def Let_def dict_keys_def)
  have dist: "distinct ([] @ map hd (node_records False lines))"
    using assms(5) by (simp add: declared_names_def)
  have inv3: "nodes_inv st3 (declared_names lines)"
    using nodes_loop_inv [OF l inv0 dist] by (simp add: declared_names_def)
  have "nodes_inv st (declared_names lines) = nodes_inv st3 (declared_names lines)"
    unfolding st by (simp add: nodes_inv_def)
  then have inv: "nodes_inv st (declared_names lines)"
    using inv3 by simp
  have keys: "dict_keys (nodes st) = declared_names lines"
    and mv: "movable_nodes st = take k (nodes st)"
    and fx: "fixed_nodes st = drop k (nodes st)"
    using inv unfolding nodes_inv_def Let_def k_def by blast+
  have la: "list_all (\<lambda>(nm, a). \<not> node_is_fixed (store st a) \<and> node_name (store st a) = nm)
           (movable_nodes st)"
    and lb: "list_all (\<lambda>(nm, a). node_is_fixed (store st a) \<and> node_name (store st a) = nm)
           (fixed_nodes st)"
    using inv by (auto simp add: nodes_inv_def Let_def list_all_iff)
  have len: "length (nodes st) = length (declared_names lines)"
    using keys by (metis dict_keys_def length_map)
  have cnt: "int (length (declared_names lines)) = num_modules st \<and>
          0 \<le> num_terminals st \<and> num_terminals st \<le> num_modules st \<longrightarrow>
            int (length (fixed_nodes st)) = num_terminals st"
    unfolding fx using len by (auto simp add: k_def)
  show ?thesis using keys mv fx la lb cnt by blast
qed

theorem parse_nodes_classification_witness:
  "snd (parse_nodes sample_builtins (Some sample_nodes) empty_parser) = None \<and>
   distinct (declared_names sample_nodes) \<and>
   dict_keys (movable_nodes (fst (parse_nodes sample_builtins (Some sample_nodes) empty_parser)))
     = [''a'', ''b''] \<and>
   dict_keys (fixed_nodes (fst (parse_nodes sample_builtins (Some sample_nodes) empty_parser)))
     = [''t''] \<and>
   int (length (fixed_nodes (fst (parse_nodes sample_builtins (Some sample_nodes)
     empty_parser)))) = 1"
proof -
  define r where "r = fst (parse_nodes sample_builtins (Some sample_nodes) empty_parser)"
  have e: "snd (parse_nodes sample_builtins (Some sample_nodes) empty_parser) = None"
    by code_simp
  have p: "parse_nodes sample_builtins (Some sample_nodes) empty_parser = (r, None)"
    using e unfolding r_def by (simp add: prod_eq_iff)
  have d: "distinct (declared_names sample_nodes)" by code_simp
  have n: "declared_names sample_nodes = [''a'', ''b'', ''t'']" by code_simp
  have m: "num_modules r = 3" unfolding r_def by code_simp
  have t: "num_terminals r = 1" unfolding r_def by code_simp
  have z: "nodes empty_parser = []" "movable_nodes empty_parser = []"
    "fixed_nodes empty_parser = []" by (simp_all add: empty_parser_def)
  note c = parse_nodes_classification [OF p z d]
  have k: "nat (num_modules r - num_terminals r) = 2" using m t by simp
  have kn: "map fst (nodes r) = [''a'', ''b'', ''t'']"
    using c n unfolding dict_keys_def by simp
  have mv: "movable_nodes r = take 2 (nodes r)" using c unfolding k by blast
  have fx: "fixed_nodes r = drop 2 (nodes r)" using c unfolding k by blast
  have km: "map fst (movable_nodes r) = [''a'', ''b'']"
    unfolding mv take_map [symmetric] kn by simp
  have kf: "map fst (fixed_nodes r) = [''t'']"
    unfolding fx drop_map [symmetric] kn by simp
  have lf: "int (length (fixed_nodes r)) = 1"
    using kf by (metis length_map length_Cons list.size(3) of_nat_1 One_nat_def)
  show ?thesis using e d km kf lf unfolding r_def dict_keys_def by blast
qed

text \<open>
  C6 as stated fails when the file declares more nodes than \<^verbatim>\<open>NumNodes\<close>: with
  \<^verbatim>\<open>NumNodes : 3\<close>, \<^verbatim>\<open>NumTerminals : 1\<close> and four declarations, the two last
  declarations are fixed, not one.
\<close>

theorem parse_nodes_extra_counterexample:
  "snd (parse_nodes sample_builtins (Some long_nodes) empty_parser) = None \<and>
   num_modules (fst (parse_nodes sample_builtins (Some long_nodes) empty_parser)) = 3 \<and>
   num_terminals (fst (parse_nodes sample_builtins (Some long_nodes) empty_parser)) = 1 \<and>
   dict_keys (fixed_nodes (fst (parse_nodes sample_builtins (Some long_nodes) empty_parser)))
     = [''t'', ''u'']"
  by code_simp

section \<open>Properties of \<^verbatim>\<open>parse_nets\<close>\<close>

lemma known_pin_nodes: "nodes st = nodes st0 \<Longrightarrow> known_pin st line = known_pin st0 line"
  by (cases "split_ws line") (simp_all add: known_pin_def)

lemma add_pin_known:
  "add_pin st line loc =
     (if known_pin st line
      then loc\<lparr>cur_pins := cur_pins loc @
             [\<lparr>pin_node = hd (split_ws line),
               pin_type = (if length (split_ws line) > 1 then split_ws line ! 1 else ''I'')\<rparr>]\<rparr>
      else loc)"
  by (cases "split_ws line") (simp_all add: add_pin_def known_pin_def Let_def)

lemma save_net_nodes: "nodes (fst (save_net loc st)) = nodes st"
  by (simp add: save_net_def split: option.splits)

lemma nets_header_fields:
  "nets_header env lines st = (st', e) \<Longrightarrow> nets st' = nets st \<and> nodes st' = nodes st"
proof (induction lines arbitrary: st)
  case Nil
  then show ?case by auto
next
  case (Cons l ls)
  show ?case
  proof (cases "startswith (strip l) ''NumNets''")
    case True
    show ?thesis
    proof (cases "header_int env (strip l)")
      case (Inl ex)
      then show ?thesis using True Cons.prems by (auto simp add: Let_def)
    next
      case (Inr n)
      then show ?thesis
        using True Cons.prems Cons.IH [of "st\<lparr>num_nets := n\<rparr>"] by (simp add: Let_def)
    qed
  next
    case False
    show ?thesis
    proof (cases "startswith (strip l) ''NumPins''")
      case True
      then show ?thesis using False Cons.prems
        by (auto simp add: Let_def split: sum.splits)
    next
      case nt: False
      then show ?thesis using False Cons.prems Cons.IH [of st] by (simp add: Let_def)
    qed
  qed
qed

lemma nets_lines_Cons:
  "nets_lines (l # ls) = (if nets_skipped (strip l) then nets_lines ls else strip l # nets_lines ls)"
  by (simp add: nets_lines_def nets_skipped_def)

lemma nets_loop_skip:
  "nets_skipped (strip l) \<Longrightarrow> nets_loop env (l # ls) loc st = nets_loop env ls loc st"
  by (auto simp add: nets_skipped_def Let_def)

lemma nets_loop_header:
  "\<not> nets_skipped (strip l) \<Longrightarrow> startswith (strip l) ''NetDegree'' \<Longrightarrow>
   nets_loop env (l # ls) loc st =
     (case net_header env (strip l) (fst (save_net loc st)) of
        Inl e \<Rightarrow> (save_net loc st, Some e)
      | Inr nm \<Rightarrow> nets_loop env ls ((snd (save_net loc st))\<lparr>current_net := Some nm, cur_pins := []\<rparr>)
                    (fst (save_net loc st)))"
  by (auto simp add: nets_skipped_def Let_def split: prod.splits sum.splits)

lemma nets_loop_pin:
  "\<not> nets_skipped (strip l) \<Longrightarrow> \<not> startswith (strip l) ''NetDegree'' \<Longrightarrow>
   nets_loop env (l # ls) loc st = nets_loop env ls (add_pin st (strip l) loc) st"
  by (auto simp add: nets_skipped_def Let_def)

lemma save_net_degrees:
  "map net_degree (nets (fst (save_net loc st))) =
     map net_degree (nets st) @
       filter (\<lambda>n. 0 < n) (case pending loc of None \<Rightarrow> [] | Some c \<Rightarrow> [c])"
  by (auto simp add: save_net_def pending_def split: option.splits)

lemma save_net_pending:
  "pending ((snd (save_net loc st))\<lparr>current_net := Some nm, cur_pins := []\<rparr>) = Some 0"
  by (simp add: pending_def)

lemma pending_add_pin:
  "pending (add_pin st line loc) =
     map_option (\<lambda>c. c + (if known_pin st line then 1 else 0)) (pending loc)"
  by (simp add: add_pin_known pending_def split: option.splits)

lemma pending_counts_Nil:
  "pending_counts K pend [] = (case pend of None \<Rightarrow> [] | Some c \<Rightarrow> [c])"
  by (simp add: pending_counts_def split: option.splits)

lemma pending_counts_sep:
  "startswith line ''NetDegree'' \<Longrightarrow>
   pending_counts K pend (line # ls) =
     (case pend of None \<Rightarrow> [] | Some c \<Rightarrow> [c]) @ pending_counts K (Some 0) ls"
  by (simp add: pending_counts_def Let_def split: option.splits)

lemma pending_counts_pin:
  "\<not> startswith line ''NetDegree'' \<Longrightarrow>
   pending_counts K pend (line # ls) =
     pending_counts K (map_option (\<lambda>c. c + (if K line then 1 else 0)) pend) ls"
  by (simp add: pending_counts_def Let_def split: option.splits)

lemma nets_loop_degrees:
  "nets_loop env lines loc st = ((st', loc'), None) \<Longrightarrow> nodes st = nodes st0 \<Longrightarrow>
   map net_degree (nets (fst (save_net loc' st'))) =
     map net_degree (nets st) @
       filter (\<lambda>n. 0 < n) (pending_counts (known_pin st0) (pending loc) (nets_lines lines))"
proof (induction lines arbitrary: loc st)
  case Nil
  then show ?case
    by (simp add: nets_lines_def pending_counts_Nil save_net_degrees)
next
  case (Cons l ls)
  show ?case
  proof (cases "nets_skipped (strip l)")
    case True
    then show ?thesis
      using Cons.IH [of loc st] Cons.prems
      by (simp add: nets_loop_skip nets_lines_Cons del: nets_loop.simps)
  next
    case ns: False
    show ?thesis
    proof (cases "startswith (strip l) ''NetDegree''")
      case True
      let ?st1 = "fst (save_net loc st)"
      let ?loc1 = "snd (save_net loc st)"
      from Cons.prems(1) obtain nm where
        rest: "nets_loop env ls (?loc1\<lparr>current_net := Some nm, cur_pins := []\<rparr>) ?st1
                 = ((st', loc'), None)"
        unfolding nets_loop_header [OF ns True] by (auto split: sum.splits)
      have n1: "nodes ?st1 = nodes st0" using Cons.prems(2) by (simp add: save_net_nodes)
      have ih: "map net_degree (nets (fst (save_net loc' st'))) =
                  map net_degree (nets ?st1) @
                  filter (\<lambda>n. 0 < n) (pending_counts (known_pin st0) (Some 0) (nets_lines ls))"
        using Cons.IH [OF rest n1] by (simp add: save_net_pending)
      have sd: "map net_degree (nets ?st1) =
                  map net_degree (nets st) @
                  filter (\<lambda>n. 0 < n) (case pending loc of None \<Rightarrow> [] | Some c \<Rightarrow> [c])"
        by (rule save_net_degrees)
      have rhs: "pending_counts (known_pin st0) (pending loc) (nets_lines (l # ls)) =
                   (case pending loc of None \<Rightarrow> [] | Some c \<Rightarrow> [c]) @
                   pending_counts (known_pin st0) (Some 0) (nets_lines ls)"
        using ns True by (simp add: nets_lines_Cons pending_counts_sep)
      show ?thesis
        by (simp only: ih sd rhs filter_append append_assoc)
    next
      case False
      have rest: "nets_loop env ls (add_pin st (strip l) loc) st = ((st', loc'), None)"
        using Cons.prems(1) unfolding nets_loop_pin [OF ns False] .
      have k: "known_pin st (strip l) = known_pin st0 (strip l)"
        by (rule known_pin_nodes [OF Cons.prems(2)])
      show ?thesis
        using Cons.IH [OF rest Cons.prems(2)] ns False
        by (simp add: nets_lines_Cons pending_counts_pin pending_add_pin k)
    qed
  qed
qed

lemma save_net_ok:
  "list_all (net_ok st0) (nets st) \<Longrightarrow>
   list_all (\<lambda>p. dict_has (nodes st0) (pin_node p)) (cur_pins loc) \<Longrightarrow>
   list_all (net_ok st0) (nets (fst (save_net loc st)))"
  by (auto simp add: save_net_def net_ok_def split: option.splits)

lemma save_net_pins: "cur_pins (snd (save_net loc st)) = cur_pins loc"
  by (simp add: save_net_def split: option.splits)

lemma add_pin_ok:
  "nodes st = nodes st0 \<Longrightarrow>
   list_all (\<lambda>p. dict_has (nodes st0) (pin_node p)) (cur_pins loc) \<Longrightarrow>
   list_all (\<lambda>p. dict_has (nodes st0) (pin_node p)) (cur_pins (add_pin st line loc))"
  by (cases "split_ws line") (simp_all add: add_pin_def Let_def)

lemma nets_loop_ok:
  "nets_loop env lines loc st = ((st', loc'), e) \<Longrightarrow> nodes st = nodes st0 \<Longrightarrow>
   list_all (net_ok st0) (nets st) \<Longrightarrow>
   list_all (\<lambda>p. dict_has (nodes st0) (pin_node p)) (cur_pins loc) \<Longrightarrow>
   list_all (net_ok st0) (nets (fst (save_net loc' st')))"
proof (induction lines arbitrary: loc st)
  case Nil
  then show ?case by (auto intro: save_net_ok)
next
  case (Cons l ls)
  show ?case
  proof (cases "nets_skipped (strip l)")
    case True
    then show ?thesis
      using Cons.IH [of loc st] Cons.prems
      by (simp add: nets_loop_skip del: nets_loop.simps)
  next
    case ns: False
    show ?thesis
    proof (cases "startswith (strip l) ''NetDegree''")
      case True
      let ?st1 = "fst (save_net loc st)"
      let ?loc1 = "snd (save_net loc st)"
      have ok1: "list_all (net_ok st0) (nets ?st1)"
        by (rule save_net_ok [OF Cons.prems(3) Cons.prems(4)])
      have n1: "nodes ?st1 = nodes st0" using Cons.prems(2) by (simp add: save_net_nodes)
      show ?thesis
      proof (cases "net_header env (strip l) ?st1")
        case (Inl ex)
        then have r: "st' = ?st1" "loc' = ?loc1"
          using Cons.prems(1) unfolding nets_loop_header [OF ns True] by simp_all
        have "list_all (\<lambda>p. dict_has (nodes st0) (pin_node p)) (cur_pins ?loc1)"
          using Cons.prems(4) by (simp add: save_net_pins)
        then show ?thesis unfolding r by (rule save_net_ok [OF ok1])
      next
        case (Inr nm)
        then have rest: "nets_loop env ls (?loc1\<lparr>current_net := Some nm, cur_pins := []\<rparr>) ?st1
                 = ((st', loc'), e)"
          using Cons.prems(1) unfolding nets_loop_header [OF ns True] by simp
        show ?thesis
          by (rule Cons.IH [OF rest n1 ok1]) simp
      qed
    next
      case False
      have rest: "nets_loop env ls (add_pin st (strip l) loc) st = ((st', loc'), e)"
        using Cons.prems(1) unfolding nets_loop_pin [OF ns False] .
      show ?thesis
        by (rule Cons.IH [OF rest Cons.prems(2) Cons.prems(3)
              add_pin_ok [OF Cons.prems(2) Cons.prems(4)]])
    qed
  qed
qed

lemma known_pin_counts_pending:
  "known_pin_counts st lines = pending_counts (known_pin st) None (nets_lines lines)"
  by (simp add: known_pin_counts_def pending_counts_def net_blocks_def)

lemma parse_nets_result:
  assumes "parse_nets env (Some lines) st = (st', None)"
  shows "\<exists>st1 st3 loc. nets_header env lines st = (st1, None) \<and>
           nets_loop env lines \<lparr>current_net = None, cur_pins = [], net_degrees = []\<rparr>
             (st1\<lparr>net_count := num_nets st1, total_pin_count := num_pins st1\<rparr>)
             = ((st3, loc), None) \<and>
           nets st' = nets (fst (save_net loc st3))"
proof -
  obtain st1 where h: "nets_header env lines st = (st1, None)"
    using assms by (auto simp add: parse_nets_def split: prod.splits option.splits)
  let ?st2 = "st1\<lparr>net_count := num_nets st1, total_pin_count := num_pins st1\<rparr>"
  obtain st3 loc where l: "nets_loop env lines
      \<lparr>current_net = None, cur_pins = [], net_degrees = []\<rparr> ?st2 = ((st3, loc), None)"
    using assms h
    by (auto simp add: parse_nets_def Let_def split: prod.splits option.splits)
  have "nets st' = nets (fst (save_net loc st3))"
    using assms h l
    by (auto simp add: parse_nets_def Let_def split: prod.splits option.splits if_splits)
  then show ?thesis using h l by blast
qed

text \<open>
  C10. When \<^verbatim>\<open>parse_nets\<close> completes without an exception on a parser that holds no
  nets yet, the degrees of the stored nets are, in order, the non-zero numbers of known
  pin lines of the net blocks of the file: the declared \<^verbatim>\<open>NetDegree\<close> value plays no
  part, and a block without a known pin line stores no net. Every stored net has
  \<^verbatim>\<open>degree = len(pins)\<close>, at least one pin, and only pins on nodes of the design. There
  is a file for which fewer nets are stored than \<^verbatim>\<open>NumNets\<close> and the stored degrees sum
  to less than \<^verbatim>\<open>NumPins\<close>.
\<close>

theorem parse_nets_degrees:
  assumes "parse_nets env (Some lines) st = (st', None)" and "nets st = []"
  shows "map net_degree (nets st') = filter (\<lambda>n. 0 < n) (known_pin_counts st lines) \<and>
         list_all (\<lambda>n. net_degree n = length (net_pins n) \<and> net_pins n \<noteq> [] \<and>
                        list_all (\<lambda>p. dict_has (nodes st) (pin_node p)) (net_pins n))
           (nets st') \<and>
         (\<exists>env0 lines0 st0 st0'.
            parse_nets env0 (Some lines0) st0 = (st0', None) \<and> nets st0 = [] \<and>
            int (length (nets st0')) < num_nets st0' \<and>
            int (sum_list (map net_degree (nets st0'))) < num_pins st0')"
proof -
  obtain st1 st3 loc where h: "nets_header env lines st = (st1, None)"
    and l: "nets_loop env lines \<lparr>current_net = None, cur_pins = [], net_degrees = []\<rparr>
             (st1\<lparr>net_count := num_nets st1, total_pin_count := num_pins st1\<rparr>)
             = ((st3, loc), None)"
    and n: "nets st' = nets (fst (save_net loc st3))"
    using parse_nets_result [OF assms(1)] by blast
  let ?st2 = "st1\<lparr>net_count := num_nets st1, total_pin_count := num_pins st1\<rparr>"
  have f: "nets ?st2 = []" "nodes ?st2 = nodes st"
    using nets_header_fields [OF h] assms(2) by simp_all
  have d: "map net_degree (nets st') = filter (\<lambda>n. 0 < n) (known_pin_counts st lines)"
    unfolding n using nets_loop_degrees [OF l f(2)] f(1)
    by (simp add: known_pin_counts_pending pending_def)
  have "list_all (net_ok st) (nets st')"
    unfolding n using nets_loop_ok [OF l f(2)] f(1) by simp
  then have o: "list_all (\<lambda>n. net_degree n = length (net_pins n) \<and> net_pins n \<noteq> [] \<and>
                        list_all (\<lambda>p. dict_has (nodes st) (pin_node p)) (net_pins n))
           (nets st')"
    by (simp add: net_ok_def list_all_iff)
  define r where "r = fst (parse_nets sample_builtins (Some orphan_nets) sample_parsed_nodes)"
  have e1: "snd (parse_nets sample_builtins (Some orphan_nets) sample_parsed_nodes) = None"
    by code_simp
  have e2: "nets sample_parsed_nodes = []" by code_simp
  have e3: "int (length (nets r)) < num_nets r" unfolding r_def by code_simp
  have e4: "int (sum_list (map net_degree (nets r))) < num_pins r" unfolding r_def by code_simp
  have e0: "parse_nets sample_builtins (Some orphan_nets) sample_parsed_nodes = (r, None)"
    using e1 unfolding r_def by (simp add: prod_eq_iff)
  have x: "\<exists>env0 lines0 st0 st0'.
            parse_nets env0 (Some lines0) st0 = (st0', None) \<and> nets st0 = [] \<and>
            int (length (nets st0')) < num_nets st0' \<and>
            int (sum_list (map net_degree (nets st0'))) < num_pins st0'"
    using e0 e2 e3 e4 by blast
  show ?thesis using d o x by blast
qed

theorem parse_nets_degrees_witness:
  "snd (parse_nets sample_builtins (Some orphan_nets) sample_parsed_nodes) = None \<and>
   nets sample_parsed_nodes = [] \<and>
   known_pin_counts sample_parsed_nodes orphan_nets = [2, 0] \<and>
   map net_degree (nets (fst (parse_nets sample_builtins (Some orphan_nets)
     sample_parsed_nodes))) = [2]"
proof -
  define r where "r = fst (parse_nets sample_builtins (Some orphan_nets) sample_parsed_nodes)"
  have e1: "snd (parse_nets sample_builtins (Some orphan_nets) sample_parsed_nodes) = None"
    by code_simp
  have e2: "nets sample_parsed_nodes = []" by code_simp
  have e0: "parse_nets sample_builtins (Some orphan_nets) sample_parsed_nodes = (r, None)"
    using e1 unfolding r_def by (simp add: prod_eq_iff)
  have k: "known_pin_counts sample_parsed_nodes orphan_nets = [2, 0]" by code_simp
  have "map net_degree (nets r) = [2]"
    using parse_nets_degrees [OF e0 e2] unfolding k by simp
  then show ?thesis using e1 e2 k unfolding r_def by blast
qed

lemma dangling_not_header:
  "dangling_pin st0 l \<Longrightarrow>
   \<not> startswith (strip l) ''NumNets'' \<and> \<not> startswith (strip l) ''NumPins''"
  by (simp add: dangling_pin_def Let_def)

lemma nets_header_filter:
  "nets_header env (filter (\<lambda>l. \<not> dangling_pin st0 l) lines) st = nets_header env lines st"
proof (induction lines arbitrary: st)
  case Nil
  show ?case by simp
next
  case (Cons l ls)
  show ?case
  proof (cases "dangling_pin st0 l")
    case True
    then show ?thesis using Cons.IH [of st] dangling_not_header [OF True]
      by (simp add: Let_def)
  next
    case False
    then show ?thesis using Cons.IH
      by (simp add: Let_def split: sum.splits)
  qed
qed

lemma dangling_pin_nodes:
  "nodes st = nodes st0 \<Longrightarrow> dangling_pin st l = dangling_pin st0 l"
  by (simp add: dangling_pin_def Let_def known_pin_nodes [of st st0])

lemma nets_loop_filter:
  "nodes st = nodes st0 \<Longrightarrow>
   nets_loop env (filter (\<lambda>l. \<not> dangling_pin st0 l) lines) loc st = nets_loop env lines loc st"
proof (induction lines arbitrary: loc st)
  case Nil
  show ?case by simp
next
  case (Cons l ls)
  show ?case
  proof (cases "dangling_pin st0 l")
    case True
    then have d: "dangling_pin st l" using Cons.prems dangling_pin_nodes [of st st0 l] by simp
    have ns: "\<not> nets_skipped (strip l)" and nd: "\<not> startswith (strip l) ''NetDegree''"
      and nk: "\<not> known_pin st (strip l)"
      using d by (simp_all add: dangling_pin_def Let_def nets_skipped_def)
    have "nets_loop env (l # ls) loc st = nets_loop env ls loc st"
      unfolding nets_loop_pin [OF ns nd] using nk by (simp add: add_pin_known)
    then show ?thesis using True Cons.IH [OF Cons.prems, of loc] by simp
  next
    case keep: False
    have f: "filter (\<lambda>l. \<not> dangling_pin st0 l) (l # ls) =
               l # filter (\<lambda>l. \<not> dangling_pin st0 l) ls"
      using keep by simp
    show ?thesis
    proof (cases "nets_skipped (strip l)")
      case True
      show ?thesis
        unfolding f nets_loop_skip [OF True] by (rule Cons.IH [OF Cons.prems])
    next
      case ns: False
      show ?thesis
      proof (cases "startswith (strip l) ''NetDegree''")
        case True
        have n1: "nodes (fst (save_net loc st)) = nodes st0"
          using Cons.prems by (simp add: save_net_nodes)
        show ?thesis
          unfolding f nets_loop_header [OF ns True]
          by (simp add: Cons.IH [OF n1] split: sum.splits)
      next
        case False
        show ?thesis
          unfolding f nets_loop_pin [OF ns False] by (rule Cons.IH [OF Cons.prems])
      qed
    qed
  qed
qed

text \<open>
  C5 (as amended). A pin line that names a node absent from the design is dropped
  silently: \<^verbatim>\<open>parse_nets\<close> returns exactly what it returns for the file without these
  lines, the same parser state and the same caught exception, if any.
\<close>

theorem parse_nets_drops_dangling:
  "parse_nets env (Some lines) st =
   parse_nets env (Some (filter (\<lambda>l. \<not> dangling_pin st l) lines)) st"
proof -
  let ?kept = "filter (\<lambda>l. \<not> dangling_pin st l) lines"
  obtain st1 e where h: "nets_header env lines st = (st1, e)"
    by (cases "nets_header env lines st")
  have h': "nets_header env ?kept st = (st1, e)"
    using h by (simp only: nets_header_filter)
  let ?st2 = "st1\<lparr>net_count := num_nets st1, total_pin_count := num_pins st1\<rparr>"
  have n2: "nodes ?st2 = nodes st" using nets_header_fields [OF h] by simp
  have l: "nets_loop env ?kept loc ?st2 = nets_loop env lines loc ?st2" for loc
    by (rule nets_loop_filter [OF n2])
  show ?thesis
  proof (cases e)
    case None
    show ?thesis
      unfolding parse_nets_def option.case h h' None prod.case Let_def l ..
  next
    case (Some ex)
    show ?thesis
      unfolding parse_nets_def option.case h h' Some prod.case ..
  qed
qed

text \<open>
  C5 as stated fails: in \<open>dangling_nets\<close> the pin line \<^verbatim>\<open>zz O\<close> of net \<open>n0\<close> names an
  undeclared node, yet \<^verbatim>\<open>parse_nets\<close> raises nothing, stores \<open>n0\<close> with the one pin
  \<open>a\<close> and goes on to store \<open>n1\<close>.
\<close>

theorem parse_nets_dangling_counterexample:
  "list_ex (dangling_pin sample_parsed_nodes) dangling_nets \<and>
   snd (parse_nets sample_builtins (Some dangling_nets) sample_parsed_nodes) = None \<and>
   map (\<lambda>n. (net_name n, map pin_node (net_pins n), net_degree n))
     (nets (fst (parse_nets sample_builtins (Some dangling_nets) sample_parsed_nodes)))
     = [(''n0'', [''a''], 1), (''n1'', [''b'', ''t''], 2)]"
  by code_simp

end
